theory Spec2Isabelle
  imports Main
begin

section \<open>Python values, strings and exceptions\<close>

text \<open>
  A Python \<open>str\<close> is modelled as a \<open>string\<close>, one \<open>char\<close> per code point (code points
  below 256), so \<open>length\<close> is Python's \<open>len\<close>.  The target size and \<open>max_chars\<close> are
  Python integers, hence \<open>int\<close>.
\<close>

definition is_space :: "char \<Rightarrow> bool" where
  \<comment> \<open>\<open>str.isspace\<close> on one character: tab to carriage return, the four separators
      0x1c..0x1f, the space, NEL (0x85) and the no-break space (0xa0).\<close>
  "is_space c = (let n = (of_char c :: nat) in
     (9 \<le> n \<and> n \<le> 13) \<or> (28 \<le> n \<and> n \<le> 32) \<or> n = 133 \<or> n = 160)"

fun split_from :: "string \<Rightarrow> string \<Rightarrow> string list" where
  "split_from cur [] = (if cur = [] then [] else [cur])"
| "split_from cur (c # cs) =
     (if is_space c then (if cur = [] then split_from [] cs else cur # split_from [] cs)
      else split_from (cur @ [c]) cs)"

definition split_ws :: "string \<Rightarrow> string list" where
  \<comment> \<open>\<open>text.split()\<close>: the maximal runs of non-whitespace characters, in order.\<close>
  "split_ws s = split_from [] s"

fun join_sp :: "string list \<Rightarrow> string" where
  \<comment> \<open>\<open>' '.join(ws)\<close>\<close>
  "join_sp [] = []"
| "join_sp [w] = w"
| "join_sp (w # v # ws) = w @ CHR '' '' # join_sp (v # ws)"

definition collapse_ws :: "string \<Rightarrow> string" where
  \<comment> \<open>whitespace collapsing: \<open>' '.join(s.split())\<close>\<close>
  "collapse_ws s = join_sp (split_ws s)"

definition lower_char :: "char \<Rightarrow> char" where
  \<comment> \<open>\<open>str.lower\<close> on one character below 256: A..Z and the Latin-1 capitals
      0xC0..0xDE (without the multiplication sign 0xD7) move up by 32.\<close>
  "lower_char c = (let n = (of_char c :: nat) in
     if (65 \<le> n \<and> n \<le> 90) \<or> (192 \<le> n \<and> n \<le> 222 \<and> n \<noteq> 215) then char_of (n + 32) else c)"

definition lower :: "string \<Rightarrow> string" where
  "lower s = map lower_char s"

definition endswith :: "string \<Rightarrow> string \<Rightarrow> bool" where
  "endswith s suffix = (length suffix \<le> length s \<and> drop (length s - length suffix) s = suffix)"

definition slice_to :: "int \<Rightarrow> 'a list \<Rightarrow> 'a list" where
  \<comment> \<open>\<open>s[:m]\<close>: a negative \<open>m\<close> counts from the end.\<close>
  "slice_to m s = (if 0 \<le> m then take (nat m) s else take (length s - nat (- m)) s)"

text \<open>
  The values that reach the code from a decoded JSON body: \<open>None\<close>, booleans, numbers,
  strings, lists and dictionaries (a dictionary as the association list of its items).
\<close>

datatype pyval =
    PNone
  | PBool bool
  | PNum int
  | PStr string
  | PList "pyval list"
  | PDict "(string \<times> pyval) list"

datatype exn =
    ConnectionError
  | Timeout
  | HTTPError nat
  | JSONDecodeError
  | KeyError
  | IndexError
  | TypeError
  | FileDataError

text \<open>
  A statement that raises is \<open>Inl\<close> of the exception; \<open>then_do\<close> sequences two statements
  and \<open>try_except\<close> is \<open>try: ... except Exception as e: ...\<close>.  Every exception of the
  model derives from \<open>Exception\<close>.
\<close>

definition then_do :: "exn + 'a \<Rightarrow> ('a \<Rightarrow> exn + 'b) \<Rightarrow> exn + 'b" where
  "then_do r f = (case r of Inl e \<Rightarrow> Inl e | Inr v \<Rightarrow> f v)"

definition try_except :: "exn + 'a \<Rightarrow> (exn \<Rightarrow> exn + 'a) \<Rightarrow> exn + 'a" where
  "try_except body handler = (case body of Inl e \<Rightarrow> handler e | Inr v \<Rightarrow> Inr v)"

fun getitem_key :: "pyval \<Rightarrow> string \<Rightarrow> exn + pyval" where
  \<comment> \<open>\<open>v[key]\<close> with a string key\<close>
  "getitem_key (PDict kvs) k = (case map_of kvs k of None \<Rightarrow> Inl KeyError | Some v \<Rightarrow> Inr v)"
| "getitem_key _ k = Inl TypeError"

fun getitem_0 :: "pyval \<Rightarrow> exn + pyval" where
  \<comment> \<open>\<open>v[0]\<close>; the keys of a decoded JSON object are strings, so \<open>0\<close> is never one\<close>
  "getitem_0 (PList []) = Inl IndexError"
| "getitem_0 (PList (x # xs)) = Inr x"
| "getitem_0 (PStr []) = Inl IndexError"
| "getitem_0 (PStr (c # cs)) = Inr (PStr [c])"
| "getitem_0 (PDict kvs) = Inl KeyError"
| "getitem_0 _ = Inl TypeError"

fun getslice_to :: "pyval \<Rightarrow> int \<Rightarrow> exn + pyval" where
  \<comment> \<open>\<open>v[:m]\<close>\<close>
  "getslice_to (PStr s) m = Inr (PStr (slice_to m s))"
| "getslice_to (PList xs) m = Inr (PList (slice_to m xs))"
| "getslice_to (PDict kvs) m = Inl KeyError"
| "getslice_to _ m = Inl TypeError"

fun add_str :: "pyval \<Rightarrow> string \<Rightarrow> exn + string" where
  \<comment> \<open>\<open>v + s\<close> for a string \<open>s\<close>\<close>
  "add_str (PStr t) s = Inr (t @ s)"
| "add_str _ s = Inl TypeError"

fun truthy :: "pyval \<Rightarrow> bool" where
  "truthy PNone = False"
| "truthy (PBool b) = b"
| "truthy (PNum n) = (n \<noteq> 0)"
| "truthy (PStr s) = (s \<noteq> [])"
| "truthy (PList xs) = (xs \<noteq> [])"
| "truthy (PDict kvs) = (kvs \<noteq> [])"

section \<open>PDF handling\<close>

text \<open>
  The file system and the converter are parameters: \<open>exists\<close> is \<open>os.path.exists\<close> and
  \<open>to_markdown\<close> is \<open>pymupdf4llm.to_markdown\<close>, which raises on a document it cannot open.
\<close>

definition validate_pdf :: "(string \<Rightarrow> bool) \<Rightarrow> string \<Rightarrow> bool" where
  "validate_pdf exists file_path =
     (if \<not> exists file_path then False
      else if \<not> endswith (lower file_path) ''.pdf'' then False
      else True)"

definition extract_text_from_pdf ::
  "(string \<Rightarrow> bool) \<Rightarrow> (string \<Rightarrow> exn + string) \<Rightarrow> string \<Rightarrow> int \<Rightarrow> exn + string option" where
  "extract_text_from_pdf exists to_markdown file_path max_chars =
     (if \<not> validate_pdf exists file_path then Inr None
      else try_except
        (then_do (to_markdown file_path) (\<lambda>markdown_text.
           Inr (Some (if int (length markdown_text) > max_chars
                      then slice_to max_chars markdown_text
                      else markdown_text))))
        (\<lambda>e. Inr None))"

section \<open>Text chunking\<close>

record chunker_state =
  chunks :: "string list"
  current_chunk :: "string list"
  current_length :: int

definition chunker_init :: chunker_state where
  "chunker_init = \<lparr>chunks = [], current_chunk = [], current_length = 0\<rparr>"

definition chunk_step :: "int \<Rightarrow> chunker_state \<Rightarrow> string \<Rightarrow> chunker_state" where
  \<comment> \<open>the body of \<open>for word in words\<close>\<close>
  "chunk_step target_chunk_size st word =
     (let word_length = int (length word) + 1 in
      if current_length st + word_length > target_chunk_size \<and> current_chunk st \<noteq> []
      then \<lparr>chunks = chunks st @ [join_sp (current_chunk st)],
            current_chunk = [word],
            current_length = word_length\<rparr>
      else \<lparr>chunks = chunks st,
            current_chunk = current_chunk st @ [word],
            current_length = current_length st + word_length\<rparr>)"

definition add_last_chunk :: "chunker_state \<Rightarrow> string list" where
  \<comment> \<open>\<open>if current_chunk: chunks.append(' '.join(current_chunk))\<close>, then \<open>return chunks\<close>\<close>
  "add_last_chunk st =
     (if current_chunk st \<noteq> [] then chunks st @ [join_sp (current_chunk st)] else chunks st)"

definition create_word_bounded_chunks :: "string \<Rightarrow> int \<Rightarrow> string list" where
  "create_word_bounded_chunks text target_chunk_size =
     add_last_chunk (foldl (chunk_step target_chunk_size) chunker_init (split_ws text))"

text \<open>
  Two auxiliary notions for the proofs: the length the loop counts for a list of words
  (each word with one space), and the loop read as a function from the words to the groups
  of words it forms.
\<close>

definition counted :: "string list \<Rightarrow> int" where
  "counted ws = (\<Sum>w\<leftarrow>ws. int (length w) + 1)"

fun grouping :: "int \<Rightarrow> string list \<Rightarrow> string list \<Rightarrow> string list list" where
  "grouping n cur [] = (if cur = [] then [] else [cur])"
| "grouping n cur (w # ws) =
     (if counted cur + (int (length w) + 1) > n \<and> cur \<noteq> []
      then cur # grouping n [w] ws
      else grouping n (cur @ [w]) ws)"

definition words_ok :: "string list \<Rightarrow> bool" where
  "words_ok ws = (\<forall>w \<in> set ws. w \<noteq> [] \<and> (\<forall>c \<in> set w. \<not> is_space c))"

section \<open>The remote model call\<close>

text \<open>
  What the service answers is a parameter of the model.  \<open>requests.post\<close> either raises
  (\<open>Raises\<close>) or returns a response with a status code and a body; \<open>json_body\<close> is
  the decoded body, \<open>None\<close> when the body is not JSON and \<open>response.json()\<close> raises.
\<close>

record response =
  status_code :: nat
  json_body :: "pyval option"

datatype http_reply = Raises exn | Responds response

definition post :: "http_reply \<Rightarrow> exn + response" where
  "post reply = (case reply of Raises e \<Rightarrow> Inl e | Responds r \<Rightarrow> Inr r)"

definition raise_for_status :: "response \<Rightarrow> exn + unit" where
  \<comment> \<open>\<open>requests\<close> raises \<open>HTTPError\<close> for the client and server error codes 400..599\<close>
  "raise_for_status r =
     (if 400 \<le> status_code r \<and> status_code r < 600 then Inl (HTTPError (status_code r))
      else Inr ())"

definition response_json :: "response \<Rightarrow> exn + pyval" where
  "response_json r = (case json_body r of None \<Rightarrow> Inl JSONDecodeError | Some v \<Rightarrow> Inr v)"

definition message_content :: "response \<Rightarrow> exn + pyval" where
  \<comment> \<open>\<open>response.json()["choices"][0]["message"]["content"]\<close>\<close>
  "message_content r =
     then_do (response_json r) (\<lambda>j.
     then_do (getitem_key j ''choices'') (\<lambda>cs.
     then_do (getitem_0 cs) (\<lambda>c.
     then_do (getitem_key c ''message'') (\<lambda>m.
     getitem_key m ''content''))))"

definition process_chunk_try :: "http_reply \<Rightarrow> string \<Rightarrow> exn + pyval" where
  \<comment> \<open>the body of the \<open>try\<close> of \<open>process_chunk\<close>; the two slices are those of the
      monitoring prints\<close>
  "process_chunk_try reply text_chunk =
     then_do (post reply) (\<lambda>response.
     then_do (raise_for_status response) (\<lambda>_.
     then_do (message_content response) (\<lambda>processed_text.
     then_do (getslice_to (PStr text_chunk) 500) (\<lambda>_.
     then_do (getslice_to processed_text 500) (\<lambda>_.
     Inr processed_text)))))"

definition process_chunk :: "http_reply \<Rightarrow> string \<Rightarrow> nat \<Rightarrow> exn + pyval" where
  "process_chunk reply text_chunk chunk_num =
     try_except (process_chunk_try reply text_chunk) (\<lambda>e. Inr (PStr text_chunk))"

definition generate_podcast_try :: "http_reply \<Rightarrow> exn + pyval" where
  "generate_podcast_try reply =
     then_do (post reply) (\<lambda>response.
     then_do (raise_for_status response) (\<lambda>_.
     message_content response))"

definition generate_podcast :: "http_reply \<Rightarrow> string \<Rightarrow> string \<Rightarrow> exn + pyval" where
  "generate_podcast reply system_prompt input_prompt =
     try_except (generate_podcast_try reply) (\<lambda>e. Inr PNone)"

definition save_podcast :: "pyval \<Rightarrow> exn + string option" where
  \<comment> \<open>the cell that saves \<open>podcast_content\<close>: the text written to
      \<open>new_generated_podcast.txt\<close>, \<open>None\<close> when nothing is saved; \<open>f.write\<close> takes
      a \<open>str\<close> only\<close>
  "save_podcast podcast_content =
     (if truthy podcast_content
      then (case podcast_content of PStr s \<Rightarrow> Inr (Some s) | _ \<Rightarrow> Inl TypeError)
      else Inr None)"

section \<open>The chunk processing loop\<close>

record run_state =
  processed_text :: string
  out_file :: string

definition run_init :: run_state where
  "run_init = \<lparr>processed_text = [], out_file = []\<rparr>"

definition newline :: string where
  "newline = [CHR 0x0A]"

definition loop_body :: "http_reply \<Rightarrow> run_state \<Rightarrow> nat \<Rightarrow> string \<Rightarrow> exn + run_state" where
  "loop_body reply st chunk_num chunk =
     then_do (process_chunk reply chunk chunk_num) (\<lambda>processed_chunk.
     then_do (add_str processed_chunk newline) (\<lambda>line.
     Inr \<lparr>processed_text = processed_text st @ line, out_file = out_file st @ line\<rparr>))"

fun run_loop :: "(nat \<Rightarrow> http_reply) \<Rightarrow> nat \<Rightarrow> string list \<Rightarrow> run_state \<Rightarrow> exn + run_state" where
  \<comment> \<open>\<open>for chunk_num, chunk in enumerate(chunks)\<close>, from index \<open>i\<close>; \<open>remote i\<close> is
      the service's answer to the call for chunk \<open>i\<close>\<close>
  "run_loop remote i [] st = Inr st"
| "run_loop remote i (chunk # rest) st =
     (case loop_body (remote i) st i chunk of
        Inl e \<Rightarrow> Inl e
      | Inr st' \<Rightarrow> run_loop remote (Suc i) rest st')"

definition process_all :: "(nat \<Rightarrow> http_reply) \<Rightarrow> string list \<Rightarrow> exn + run_state" where
  "process_all remote chunk_list = run_loop remote 0 chunk_list run_init"

text \<open>
  The lines of a text, for the claims about line boundaries: the pieces that end at a
  newline, and the rest after the last newline when it is not empty.
\<close>

fun lines_from :: "string \<Rightarrow> string \<Rightarrow> string list" where
  "lines_from cur [] = (if cur = [] then [] else [cur])"
| "lines_from cur (c # cs) =
     (if c = CHR 0x0A then cur # lines_from [] cs else lines_from (cur @ [c]) cs)"

definition lines_of :: "string \<Rightarrow> string list" where
  "lines_of s = lines_from [] s"

definition terminated :: "string list \<Rightarrow> string" where
  \<comment> \<open>every result followed by one newline, in order\<close>
  "terminated rs = concat (map (\<lambda>r. r @ newline) rs)"

section \<open>Dialogue turns\<close>

text \<open>
  \<open>generate_podcast\<close> returns the model's text; the system prompt asks for
  a list of tuples \<open>[("Speaker 1", "Text here"), ("Speaker 2", "Text here"), ...]\<close>.
  The source has no type of turns and no reader of this text.
\<close>

record turn =
  speaker :: string
  utterance :: string
  sequence :: nat

datatype scan =
    Start
  | Items
  | Opened
  | InSpeaker string
  | AfterSpeaker string
  | BeforeText string
  | InText string string
  | AfterText string string
  | Closed

fun read_tuples :: "scan \<Rightarrow> (string \<times> string) list \<Rightarrow> string \<Rightarrow> (string \<times> string) list option" where
  \<comment> \<open>Modelled from the spec: the structured parse of the dialogue compiler, which is
      not in the source (an ordered list of two-element records, each a speaker label and
      a string).  Quotes inside a string are not escaped.\<close>
  "read_tuples st acc [] = (if st = Closed then Some acc else None)"
| "read_tuples st acc (c # cs) =
     (case st of
        Start \<Rightarrow>
          if is_space c then read_tuples Start acc cs
          else if c = CHR ''['' then read_tuples Items acc cs else None
      | Items \<Rightarrow>
          if is_space c \<or> c = CHR '','' then read_tuples Items acc cs
          else if c = CHR ''('' then read_tuples Opened acc cs
          else if c = CHR '']'' then read_tuples Closed acc cs else None
      | Opened \<Rightarrow>
          if is_space c then read_tuples Opened acc cs
          else if c = CHR 0x22 then read_tuples (InSpeaker []) acc cs else None
      | InSpeaker s \<Rightarrow>
          if c = CHR 0x22 then read_tuples (AfterSpeaker s) acc cs
          else read_tuples (InSpeaker (s @ [c])) acc cs
      | AfterSpeaker s \<Rightarrow>
          if is_space c then read_tuples (AfterSpeaker s) acc cs
          else if c = CHR '','' then read_tuples (BeforeText s) acc cs else None
      | BeforeText s \<Rightarrow>
          if is_space c then read_tuples (BeforeText s) acc cs
          else if c = CHR 0x22 then read_tuples (InText s []) acc cs else None
      | InText s t \<Rightarrow>
          if c = CHR 0x22 then read_tuples (AfterText s t) acc cs
          else read_tuples (InText s (t @ [c])) acc cs
      | AfterText s t \<Rightarrow>
          if is_space c then read_tuples (AfterText s t) acc cs
          else if c = CHR '')'' then read_tuples Items (acc @ [(s, t)]) cs else None
      | Closed \<Rightarrow>
          if is_space c then read_tuples Closed acc cs else None)"

definition turns_of :: "string \<Rightarrow> turn list option" where
  \<comment> \<open>Modelled from the spec: the turns a dialogue text denotes, numbered by position.\<close>
  "turns_of s = map_option
     (\<lambda>ps. map (\<lambda>(i, (who, what)). \<lparr>speaker = who, utterance = what, sequence = i\<rparr>)
              (enumerate 0 ps))
     (read_tuples Start [] s)"

definition canonical_speaker :: "string \<Rightarrow> bool" where
  \<comment> \<open>Modelled from the spec: a case-insensitive match with one of the two labels of
      the system prompt.\<close>
  "canonical_speaker s = (lower s = ''speaker 1'' \<or> lower s = ''speaker 2'')"

definition valid_turns :: "turn list \<Rightarrow> bool" where
  \<comment> \<open>Modelled from the spec: the validation invariants of the dialogue compiler.\<close>
  "valid_turns ts =
     (list_all (\<lambda>t. canonical_speaker (speaker t) \<and> utterance t \<noteq> []) ts
      \<and> map sequence ts = [0..<length ts])"

definition completion :: "pyval \<Rightarrow> pyval" where
  \<comment> \<open>a chat-completion body with one choice, whose message has the given content\<close>
  "completion content =
     PDict [(''choices'', PList [PDict [(''message'', PDict [(''content'', content)])]])]"

definition extract_text_from_pdf_default ::
  "(string \<Rightarrow> bool) \<Rightarrow> (string \<Rightarrow> exn + string) \<Rightarrow> string \<Rightarrow> exn + string option" where
  \<comment> \<open>the call without \<open>max_chars\<close>, which defaults to 60000\<close>
  "extract_text_from_pdf_default exists to_markdown file_path =
     extract_text_from_pdf exists to_markdown file_path 60000"

section \<open>Concrete environments\<close>

text \<open>
  Environments for the concrete runs below: a file system that holds one file, a converter
  that returns a given text or cannot read the document, a well-formed answer of the service
  with a given text, and a service that gives a fixed list of answers, one per call.
\<close>

definition only_file :: "string \<Rightarrow> string \<Rightarrow> bool" where
  "only_file f p = (p = f)"

definition converts_to :: "string \<Rightarrow> string \<Rightarrow> exn + string" where
  "converts_to t p = Inr t"

definition unreadable :: "string \<Rightarrow> exn + string" where
  "unreadable p = Inl FileDataError"

definition ok_reply :: "string \<Rightarrow> http_reply" where
  "ok_reply t = Responds \<lparr>status_code = 200, json_body = Some (completion (PStr t))\<rparr>"

definition error_reply :: "nat \<Rightarrow> http_reply" where
  "error_reply code = Responds \<lparr>status_code = code, json_body = None\<rparr>"

definition scripted :: "http_reply list \<Rightarrow> nat \<Rightarrow> http_reply" where
  "scripted rs i = (if i < length rs then rs ! i else Raises ConnectionError)"

section \<open>Lemmas on splitting and joining\<close>

lemma split_from_append:
  "\<forall>c \<in> set w. \<not> is_space c \<Longrightarrow> split_from cur (w @ s) = split_from (cur @ w) s"
  by (induction w arbitrary: cur) auto

lemma split_from_join:
  "words_ok ws \<Longrightarrow> split_from [] (join_sp ws) = ws"
proof (induction ws rule: join_sp.induct)
  case 1
  show ?case by simp
next
  case (2 w)
  then have "\<forall>c \<in> set w. \<not> is_space c" and "w \<noteq> []"
    by (simp_all add: words_ok_def)
  then show ?case
    using split_from_append [of w "[]" "[]"] by simp
next
  case (3 w v ws)
  then have w: "\<forall>c \<in> set w. \<not> is_space c" "w \<noteq> []" and rest: "words_ok (v # ws)"
    by (simp_all add: words_ok_def)
  have sp: "is_space (CHR '' '')"
    by (simp add: is_space_def)
  have "split_from [] (join_sp (w # v # ws)) = split_from w (CHR '' '' # join_sp (v # ws))"
    using split_from_append [OF w(1), of "[]"] by simp
  also have "\<dots> = w # split_from [] (join_sp (v # ws))"
    using sp w(2) by simp
  finally show ?case
    using "3.IH" [OF rest] by simp
qed

lemma split_from_words_ok:
  "\<forall>c \<in> set cur. \<not> is_space c \<Longrightarrow> words_ok (split_from cur s)"
proof (induction s arbitrary: cur)
  case Nil
  then show ?case by (simp add: words_ok_def)
next
  case (Cons a s)
  show ?case
  proof (cases "is_space a")
    case True
    have "words_ok (split_from [] s)"
      using Cons.IH [of "[]"] by simp
    with True Cons.prems show ?thesis
      by (simp add: words_ok_def)
  next
    case False
    with Cons.prems have "\<forall>c \<in> set (cur @ [a]). \<not> is_space c"
      by simp
    from Cons.IH [OF this] False show ?thesis
      by simp
  qed
qed

lemma split_ws_words_ok: "words_ok (split_ws s)"
  by (simp add: split_ws_def split_from_words_ok)

lemma join_sp_append:
  "a \<noteq> [] \<Longrightarrow> b \<noteq> [] \<Longrightarrow> join_sp (a @ b) = join_sp a @ CHR '' '' # join_sp b"
proof (induction a rule: join_sp.induct)
  case 1
  then show ?case by simp
next
  case (2 w)
  then show ?case by (cases b) simp_all
next
  case (3 w v ws)
  then show ?case by simp
qed

lemma join_sp_concat:
  "[] \<notin> set gs \<Longrightarrow> join_sp (map join_sp gs) = join_sp (concat gs)"
proof (induction gs)
  case Nil
  show ?case by simp
next
  case (Cons g gs)
  show ?case
  proof (cases gs)
    case Nil
    then show ?thesis by simp
  next
    case (Cons h hs)
    with Cons.prems have ne: "g \<noteq> []" "concat gs \<noteq> []" "[] \<notin> set gs"
      by auto
    have "join_sp (map join_sp (g # gs)) = join_sp g @ CHR '' '' # join_sp (map join_sp gs)"
      using Cons by simp
    also have "\<dots> = join_sp g @ CHR '' '' # join_sp (concat gs)"
      using Cons.IH [OF ne(3)] by simp
    also have "\<dots> = join_sp (g @ concat gs)"
      using join_sp_append [OF ne(1) ne(2)] by simp
    finally show ?thesis by simp
  qed
qed

lemma length_join_sp:
  "g \<noteq> [] \<Longrightarrow> int (length (join_sp g)) = counted g - 1"
  by (induction g rule: join_sp.induct) (simp_all add: counted_def)

section \<open>Lemmas on the chunking loop\<close>

lemma counted_append: "counted (a @ b) = counted a + counted b"
  by (simp add: counted_def)

lemma counted_single: "counted [w] = int (length w) + 1"
  by (simp add: counted_def)

lemma counted_member: "w \<in> set g \<Longrightarrow> int (length w) + 1 \<le> counted g"
proof (induction g)
  case Nil
  then show ?case by simp
next
  case (Cons v g)
  have nonneg: "0 \<le> counted g" for g
    by (induction g) (simp_all add: counted_def)
  have "counted (v # g) = int (length v) + 1 + counted g"
    by (simp add: counted_def)
  with Cons nonneg [of g] show ?case by auto
qed

lemma foldl_chunk_step:
  "current_length st = counted (current_chunk st) \<Longrightarrow>
   add_last_chunk (foldl (chunk_step n) st ws) =
     chunks st @ map join_sp (grouping n (current_chunk st) ws)"
proof (induction ws arbitrary: st)
  case Nil
  show ?case by (simp add: add_last_chunk_def)
next
  case (Cons w ws)
  have "current_length (chunk_step n st w) = counted (current_chunk (chunk_step n st w))"
    using Cons.prems by (simp add: chunk_step_def Let_def counted_append counted_single)
  from Cons.IH [OF this] show ?case
    using Cons.prems by (simp add: chunk_step_def Let_def)
qed

lemma chunks_grouping:
  "create_word_bounded_chunks text n = map join_sp (grouping n [] (split_ws text))"
  using foldl_chunk_step [of chunker_init n "split_ws text"]
  by (simp add: create_word_bounded_chunks_def chunker_init_def counted_def)

lemma concat_grouping: "concat (grouping n cur ws) = cur @ ws"
  by (induction ws arbitrary: cur) auto

lemma grouping_nonempty: "[] \<notin> set (grouping n cur ws)"
  by (induction ws arbitrary: cur) auto

lemma grouping_bound:
  "cur = [] \<or> (\<exists>w. cur = [w]) \<or> counted cur \<le> n \<Longrightarrow>
   g \<in> set (grouping n cur ws) \<Longrightarrow> (\<exists>w. g = [w]) \<or> counted g \<le> n"
proof (induction ws arbitrary: cur)
  case Nil
  then show ?case by (auto split: if_splits)
next
  case (Cons w ws)
  show ?case
  proof (cases "counted cur + (int (length w) + 1) > n \<and> cur \<noteq> []")
    case True
    with Cons.prems have "g = cur \<or> g \<in> set (grouping n [w] ws)" by auto
    then show ?thesis
    proof
      assume "g = cur"
      with Cons.prems(1) True show ?thesis by auto
    next
      assume "g \<in> set (grouping n [w] ws)"
      then show ?thesis using Cons.IH [of "[w]"] by auto
    qed
  next
    case False
    with Cons.prems have mem: "g \<in> set (grouping n (cur @ [w]) ws)" by auto
    have "cur @ [w] = [] \<or> (\<exists>v. cur @ [w] = [v]) \<or> counted (cur @ [w]) \<le> n"
      using False by (cases "cur = []") (auto simp: counted_append counted_single)
    from Cons.IH [OF this mem] show ?thesis .
  qed
qed

lemma foldl_counted:
  "current_length st = counted (current_chunk st) \<Longrightarrow>
   current_length (foldl (chunk_step n) st ws) = counted (current_chunk (foldl (chunk_step n) st ws))"
proof (induction ws arbitrary: st)
  case Nil
  then show ?case by simp
next
  case (Cons w ws)
  have "current_length (chunk_step n st w) = counted (current_chunk (chunk_step n st w))"
    using Cons.prems by (simp add: chunk_step_def Let_def counted_append counted_single)
  from Cons.IH [OF this] show ?case by simp
qed

section \<open>Lemmas on PDF handling\<close>

lemma validate_pdf_iff:
  "validate_pdf exists file_path \<longleftrightarrow> exists file_path \<and> endswith (lower file_path) ''.pdf''"
  by (simp add: validate_pdf_def)

section \<open>Lemmas on the remote call\<close>

lemma process_chunk_try_Raises:
  "process_chunk_try (Raises e) c = Inl e"
  by (simp add: process_chunk_try_def post_def then_do_def)

lemma process_chunk_try_status:
  "400 \<le> status_code r \<and> status_code r < 600 \<Longrightarrow>
   process_chunk_try (Responds r) c = Inl (HTTPError (status_code r))"
  by (simp add: process_chunk_try_def post_def then_do_def raise_for_status_def)

lemma process_chunk_try_content:
  "\<not> (400 \<le> status_code r \<and> status_code r < 600) \<Longrightarrow>
   process_chunk_try (Responds r) c =
     then_do (message_content r) (\<lambda>v. then_do (getslice_to v 500) (\<lambda>_. Inr v))"
  by (auto simp: process_chunk_try_def post_def then_do_def raise_for_status_def)

lemma process_chunk_returns:
  "\<exists>v. process_chunk reply c n = Inr v"
  by (cases "process_chunk_try reply c") (simp_all add: process_chunk_def try_except_def)

lemma generate_podcast_try_Raises:
  "generate_podcast_try (Raises e) = Inl e"
  by (simp add: generate_podcast_try_def post_def then_do_def)

lemma generate_podcast_try_status:
  "400 \<le> status_code r \<and> status_code r < 600 \<Longrightarrow>
   generate_podcast_try (Responds r) = Inl (HTTPError (status_code r))"
  by (simp add: generate_podcast_try_def post_def then_do_def raise_for_status_def)

lemma generate_podcast_try_content:
  "\<not> (400 \<le> status_code r \<and> status_code r < 600) \<Longrightarrow>
   generate_podcast_try (Responds r) = message_content r"
  by (auto simp: generate_podcast_try_def post_def then_do_def raise_for_status_def)

lemma message_content_completion:
  "message_content \<lparr>status_code = code, json_body = Some (completion v)\<rparr> = Inr v"
  by (simp add: message_content_def response_json_def completion_def then_do_def)

section \<open>Lemmas on the processing loop\<close>

lemma terminated_Cons: "terminated (r # rs) = r @ newline @ terminated rs"
  by (simp add: terminated_def)

lemma loop_body_text:
  "process_chunk reply chunk i = Inr (PStr r) \<Longrightarrow>
   loop_body reply st i chunk =
     Inr \<lparr>processed_text = processed_text st @ r @ newline, out_file = out_file st @ r @ newline\<rparr>"
  by (simp add: loop_body_def then_do_def)

lemma run_loop_texts:
  "length rs = length cs \<Longrightarrow>
   \<forall>j < length cs. process_chunk (remote (i + j)) (cs ! j) (i + j) = Inr (PStr (rs ! j)) \<Longrightarrow>
   run_loop remote i cs st =
     Inr \<lparr>processed_text = processed_text st @ terminated rs,
          out_file = out_file st @ terminated rs\<rparr>"
proof (induction cs arbitrary: i st rs)
  case Nil
  then show ?case by (simp add: terminated_def)
next
  case (Cons c cs)
  from Cons.prems(1) obtain r rs' where rs: "rs = r # rs'" and len: "length rs' = length cs"
    by (cases rs) auto
  from Cons.prems(2) [rule_format, of 0] rs
  have first: "process_chunk (remote i) c i = Inr (PStr r)"
    by simp
  have rest: "\<forall>j < length cs. process_chunk (remote (Suc i + j)) (cs ! j) (Suc i + j)
      = Inr (PStr (rs' ! j))"
  proof (intro allI impI)
    fix j assume "j < length cs"
    with Cons.prems(2) [rule_format, of "Suc j"] rs
    show "process_chunk (remote (Suc i + j)) (cs ! j) (Suc i + j) = Inr (PStr (rs' ! j))"
      by simp
  qed
  show ?case
    using Cons.IH [OF len rest] rs
    by (simp add: loop_body_text [OF first] terminated_Cons)
qed

lemma process_all_texts:
  "length rs = length cs \<Longrightarrow>
   \<forall>j < length cs. process_chunk (remote j) (cs ! j) j = Inr (PStr (rs ! j)) \<Longrightarrow>
   process_all remote cs = Inr \<lparr>processed_text = terminated rs, out_file = terminated rs\<rparr>"
  using run_loop_texts [of rs cs remote 0 run_init]
  by (simp add: process_all_def run_init_def)

lemma lines_from_append:
  "CHR 0x0A \<notin> set r \<Longrightarrow> lines_from cur (r @ s) = lines_from (cur @ r) s"
  by (induction r arbitrary: cur) auto

lemma lines_of_terminated:
  "\<forall>r \<in> set rs. CHR 0x0A \<notin> set r \<Longrightarrow> lines_of (terminated rs) = rs"
proof (induction rs)
  case Nil
  show ?case by (simp add: lines_of_def terminated_def)
next
  case (Cons r rs)
  then have "CHR 0x0A \<notin> set r" and IH: "lines_from [] (terminated rs) = rs"
    by (simp_all add: lines_of_def)
  from lines_from_append [OF this(1), of "[]" "newline @ terminated rs"] IH
  show ?case
    by (simp add: lines_of_def terminated_Cons newline_def)
qed

section \<open>Claims on the chunker\<close>

text \<open>
  C1.  Joining the chunks of \<open>create_word_bounded_chunks\<close> with single spaces and
  collapsing whitespace gives the whitespace-collapsed input text: nothing is lost and the
  order is kept.  This holds for every text and every target size, in particular for the
  target sizes from 1 on.
\<close>

theorem chunks_lossless:
  "collapse_ws (join_sp (create_word_bounded_chunks text target_chunk_size)) = collapse_ws text"
proof -
  let ?ws = "split_ws text"
  let ?gs = "grouping target_chunk_size [] ?ws"
  have "join_sp (create_word_bounded_chunks text target_chunk_size) = join_sp (concat ?gs)"
    by (simp add: chunks_grouping join_sp_concat grouping_nonempty)
  also have "\<dots> = join_sp ?ws"
    by (simp add: concat_grouping)
  finally have "split_ws (join_sp (create_word_bounded_chunks text target_chunk_size)) = ?ws"
    using split_from_join [OF split_ws_words_ok [of "text"]] by (simp add: split_ws_def)
  then show ?thesis
    by (simp add: collapse_ws_def)
qed

text \<open>
  C2.  The chunks are the joined groups of a division of the words of the text into
  consecutive non-empty groups, so no word is split.  Every chunk is at most
  \<open>target_chunk_size\<close> characters long unless it is a single word that is itself longer,
  and a word longer than the target size is the only word of its chunk.
\<close>

theorem chunk_size_bound:
  "\<exists>gs. create_word_bounded_chunks text target_chunk_size = map join_sp gs
      \<and> concat gs = split_ws text
      \<and> (\<forall>g \<in> set gs. g \<noteq> []
            \<and> (int (length (join_sp g)) \<le> target_chunk_size
                \<or> (\<exists>w. g = [w] \<and> int (length w) > target_chunk_size)))
      \<and> (\<forall>g \<in> set gs. \<forall>w \<in> set g. int (length w) > target_chunk_size \<longrightarrow> g = [w])"
proof -
  let ?n = target_chunk_size
  let ?gs = "grouping ?n [] (split_ws text)"
  have shape: "(\<exists>w. g = [w]) \<or> counted g \<le> ?n" if "g \<in> set ?gs" for g
    using grouping_bound [of "[]" ?n g "split_ws text"] that by simp
  have ne: "g \<noteq> []" if "g \<in> set ?gs" for g
    using grouping_nonempty [of ?n "[]" "split_ws text"] that by auto
  have size: "int (length (join_sp g)) \<le> ?n \<or> (\<exists>w. g = [w] \<and> int (length w) > ?n)"
    if "g \<in> set ?gs" for g
  proof -
    from shape [OF that] show ?thesis
    proof
      assume "\<exists>w. g = [w]"
      then obtain w where "g = [w]" ..
      then show ?thesis by (cases "int (length w) \<le> ?n") auto
    next
      assume "counted g \<le> ?n"
      with length_join_sp [OF ne [OF that]] show ?thesis by simp
    qed
  qed
  have alone: "g = [w]" if "g \<in> set ?gs" "w \<in> set g" "int (length w) > ?n" for g w
  proof -
    from shape [OF that(1)] show ?thesis
    proof
      assume "\<exists>v. g = [v]"
      with that(2) show ?thesis by auto
    next
      assume "counted g \<le> ?n"
      with counted_member [OF that(2)] that(3) show ?thesis by simp
    qed
  qed
  have "create_word_bounded_chunks text ?n = map join_sp ?gs"
    by (rule chunks_grouping)
  moreover have "concat ?gs = split_ws text"
    by (simp add: concat_grouping)
  ultimately show ?thesis
    using ne size alone by blast
qed

theorem chunk_size_bound_witness:
  "create_word_bounded_chunks ''a bb  extraordinary cc d'' 6 = [''a bb'', ''extraordinary'', ''cc d'']
   \<and> (\<exists>gs. create_word_bounded_chunks ''a bb  extraordinary cc d'' 6 = map join_sp gs
      \<and> concat gs = split_ws ''a bb  extraordinary cc d''
      \<and> (\<forall>g \<in> set gs. g \<noteq> []
            \<and> (int (length (join_sp g)) \<le> 6 \<or> (\<exists>w. g = [w] \<and> int (length w) > 6)))
      \<and> (\<forall>g \<in> set gs. \<forall>w \<in> set g. int (length w) > 6 \<longrightarrow> g = [w]))"
proof (rule conjI)
  show "create_word_bounded_chunks ''a bb  extraordinary cc d'' 6
          = [''a bb'', ''extraordinary'', ''cc d'']"
    by (simp add: create_word_bounded_chunks_def split_ws_def is_space_def chunk_step_def
        chunker_init_def add_last_chunk_def)
next
  show "\<exists>gs. create_word_bounded_chunks ''a bb  extraordinary cc d'' 6 = map join_sp gs
      \<and> concat gs = split_ws ''a bb  extraordinary cc d''
      \<and> (\<forall>g \<in> set gs. g \<noteq> []
            \<and> (int (length (join_sp g)) \<le> 6 \<or> (\<exists>w. g = [w] \<and> int (length w) > 6)))
      \<and> (\<forall>g \<in> set gs. \<forall>w \<in> set g. int (length w) > 6 \<longrightarrow> g = [w])"
    by (rule chunk_size_bound [of "''a bb  extraordinary cc d''" 6])
qed

text \<open>
  C6.  As stated, the claim fails: with the word \<open>ab\<close> in the current chunk and the
  target size 5, adding \<open>cd\<close> gives the chunk \<open>ab cd\<close> of 5 characters, which does not
  exceed 5, and yet the loop closes the chunk.  The loop counts one space for every word,
  the last one too, so what it compares with the target size is the length of the
  extended chunk plus one.

  Amended: in every state the loop reaches with a non-empty current chunk, the next word is
  added unless the length of the chunk extended by it, plus one, exceeds the target size;
  only then the current chunk is closed and a new one starts with that word.
\<close>

theorem chunk_step_closes_at_target:
  assumes reach: "st = foldl (chunk_step target_chunk_size) chunker_init ws"
    and ne: "current_chunk st \<noteq> []"
  shows "chunk_step target_chunk_size st word =
     (if int (length (join_sp (current_chunk st @ [word]))) + 1 > target_chunk_size
      then \<lparr>chunks = chunks st @ [join_sp (current_chunk st)],
            current_chunk = [word],
            current_length = int (length word) + 1\<rparr>
      else \<lparr>chunks = chunks st,
            current_chunk = current_chunk st @ [word],
            current_length = int (length (join_sp (current_chunk st @ [word]))) + 1\<rparr>)"
proof -
  have "current_length chunker_init = counted (current_chunk chunker_init)"
    by (simp add: chunker_init_def counted_def)
  from foldl_counted [OF this] reach
  have len: "current_length st = counted (current_chunk st)"
    by simp
  have "int (length (join_sp (current_chunk st @ [word]))) = counted (current_chunk st @ [word]) - 1"
    by (rule length_join_sp) simp
  then have "int (length (join_sp (current_chunk st @ [word]))) + 1
      = current_length st + (int (length word) + 1)"
    using len by (simp add: counted_append counted_single)
  then show ?thesis
    using ne by (simp add: chunk_step_def Let_def)
qed

theorem chunk_step_closes_at_target_witness:
  "current_chunk (foldl (chunk_step 5) chunker_init [''ab'']) \<noteq> []
   \<and> chunk_step 5 (foldl (chunk_step 5) chunker_init [''ab'']) ''c''
       = \<lparr>chunks = [], current_chunk = [''ab'', ''c''], current_length = 5\<rparr>
   \<and> chunk_step 5 (foldl (chunk_step 5) chunker_init [''ab'']) ''cd''
       = \<lparr>chunks = [''ab''], current_chunk = [''cd''], current_length = 3\<rparr>"
proof -
  have st: "chunk_step 5 chunker_init ''ab''
      = \<lparr>chunks = [], current_chunk = [''ab''], current_length = 3\<rparr>"
    by (simp add: chunk_step_def chunker_init_def)
  have ne: "current_chunk (foldl (chunk_step 5) chunker_init [''ab'']) \<noteq> []"
    by (simp add: st)
  show ?thesis
    using ne chunk_step_closes_at_target [OF refl ne, of "''c''"]
      chunk_step_closes_at_target [OF refl ne, of "''cd''"]
    by (simp add: st)
qed

theorem chunk_closed_without_exceeding:
  "create_word_bounded_chunks ''ab cd'' 5 = [''ab'', ''cd'']
   \<and> chunk_step 5 (foldl (chunk_step 5) chunker_init [''ab'']) ''cd''
       = \<lparr>chunks = [''ab''], current_chunk = [''cd''], current_length = 3\<rparr>
   \<and> int (length (join_sp [''ab'', ''cd''])) \<le> 5"
  by (simp add: create_word_bounded_chunks_def split_ws_def is_space_def chunk_step_def
      chunker_init_def add_last_chunk_def)

section \<open>Claims on the processing of chunks\<close>

text \<open>
  C3.  As stated, the claim fails: a text the service returns may contain newlines, and
  then the output has more newline-separated segments than chunks.  With three chunks,
  the answers \<open>x\<newline>y\<close> and \<open>z\<close> for the first and the last, and a failure for the second
  chunk \<open>c d\<close>, the output has the four lines \<open>x\<close>, \<open>y\<close>, \<open>c d\<close>, \<open>z\<close>, and its second
  line is \<open>y\<close>.

  Amended: when the call fails for the chunk \<open>k\<close> alone and returns a text for every
  other chunk, the loop runs to its end and has appended one segment per chunk, each
  followed by one newline: the original text of the chunk at \<open>k\<close>, the returned text
  elsewhere.  If moreover neither that chunk nor any returned text contains a newline, the
  lines of the output are exactly these segments, as many as there are chunks, the one at
  \<open>k\<close> being the original chunk.
\<close>

theorem failed_chunk_falls_back:
  assumes k: "k < length chunk_list"
    and failed: "process_chunk_try (remote k) (chunk_list ! k) = Inl e"
    and others: "\<forall>i < length chunk_list. i \<noteq> k \<longrightarrow>
        process_chunk_try (remote i) (chunk_list ! i) = Inr (PStr (cleaned i))"
  shows "\<exists>segments. length segments = length chunk_list
      \<and> segments ! k = chunk_list ! k
      \<and> (\<forall>i < length chunk_list. i \<noteq> k \<longrightarrow> segments ! i = cleaned i)
      \<and> process_all remote chunk_list
          = Inr \<lparr>processed_text = terminated segments, out_file = terminated segments\<rparr>
      \<and> (CHR 0x0A \<notin> set (chunk_list ! k)
            \<and> (\<forall>i < length chunk_list. i \<noteq> k \<longrightarrow> CHR 0x0A \<notin> set (cleaned i))
          \<longrightarrow> lines_of (terminated segments) = segments)"
proof -
  let ?segments = "map (\<lambda>i. if i = k then chunk_list ! i else cleaned i) [0..<length chunk_list]"
  have len: "length ?segments = length chunk_list"
    by simp
  have each: "\<forall>j < length chunk_list.
      process_chunk (remote j) (chunk_list ! j) j = Inr (PStr (?segments ! j))"
  proof (intro allI impI)
    fix j assume j: "j < length chunk_list"
    show "process_chunk (remote j) (chunk_list ! j) j = Inr (PStr (?segments ! j))"
    proof (cases "j = k")
      case True
      with failed j show ?thesis
        by (simp add: process_chunk_def try_except_def)
    next
      case False
      with others j show ?thesis
        by (simp add: process_chunk_def try_except_def)
    qed
  qed
  have "process_all remote chunk_list
      = Inr \<lparr>processed_text = terminated ?segments, out_file = terminated ?segments\<rparr>"
    by (rule process_all_texts [OF len each])
  moreover have "?segments ! k = chunk_list ! k"
    using k by simp
  moreover have "\<forall>i < length chunk_list. i \<noteq> k \<longrightarrow> ?segments ! i = cleaned i"
    by simp
  moreover have "lines_of (terminated ?segments) = ?segments"
    if "CHR 0x0A \<notin> set (chunk_list ! k)
        \<and> (\<forall>i < length chunk_list. i \<noteq> k \<longrightarrow> CHR 0x0A \<notin> set (cleaned i))"
  proof (rule lines_of_terminated)
    show "\<forall>r \<in> set ?segments. CHR 0x0A \<notin> set r"
      using that by auto
  qed
  ultimately show ?thesis
    using len by blast
qed

theorem failed_chunk_falls_back_witness:
  "process_all (scripted [ok_reply ''one'', error_reply 500, ok_reply ''three''])
       [''a b'', ''c d'', ''e f'']
     = Inr \<lparr>processed_text = ''one\<newline>c d\<newline>three\<newline>'',
            out_file = ''one\<newline>c d\<newline>three\<newline>''\<rparr>
   \<and> lines_of ''one\<newline>c d\<newline>three\<newline>'' = [''one'', ''c d'', ''three'']"
proof -
  let ?remote = "scripted [ok_reply ''one'', error_reply 500, ok_reply ''three'']"
  let ?chunks = "[''a b'', ''c d'', ''e f'']"
  let ?cleaned = "\<lambda>i::nat. if i = 0 then ''one'' else ''three''"
  have k: "(1::nat) < length ?chunks"
    by simp
  have failed: "process_chunk_try (?remote 1) (?chunks ! 1) = Inl (HTTPError 500)"
    by (simp add: scripted_def error_reply_def process_chunk_try_status)
  have ok: "process_chunk_try (ok_reply t) c = Inr (PStr t)" for t c
    by (simp add: ok_reply_def process_chunk_try_content message_content_completion then_do_def)
  have others: "\<forall>i < length ?chunks. i \<noteq> 1 \<longrightarrow>
      process_chunk_try (?remote i) (?chunks ! i) = Inr (PStr (?cleaned i))"
    by (auto simp: scripted_def ok less_Suc_eq numeral_3_eq_3)
  have clean: "CHR 0x0A \<notin> set (?chunks ! 1)
      \<and> (\<forall>i < length ?chunks. i \<noteq> 1 \<longrightarrow> CHR 0x0A \<notin> set (?cleaned i))"
    by simp
  from failed_chunk_falls_back [OF k failed others]
  obtain segments where len: "length segments = length ?chunks"
    and atk: "segments ! 1 = ?chunks ! 1"
    and oth: "\<forall>i < length ?chunks. i \<noteq> 1 \<longrightarrow> segments ! i = ?cleaned i"
    and run: "process_all ?remote ?chunks
        = Inr \<lparr>processed_text = terminated segments, out_file = terminated segments\<rparr>"
    and lns: "CHR 0x0A \<notin> set (?chunks ! 1)
        \<and> (\<forall>i < length ?chunks. i \<noteq> 1 \<longrightarrow> CHR 0x0A \<notin> set (?cleaned i))
      \<longrightarrow> lines_of (terminated segments) = segments"
    by blast
  from lns clean have lines: "lines_of (terminated segments) = segments"
    by blast
  from oth [rule_format, of 0] oth [rule_format, of 2] atk
  have at: "segments ! 1 = ''c d''" "segments ! 0 = ''one''" "segments ! 2 = ''three''"
    by simp_all
  from len obtain a b c where "segments = [a, b, c]"
    by (auto simp: length_Suc_conv numeral_3_eq_3)
  with at have "segments = [''one'', ''c d'', ''three'']"
    by simp
  with run lines show ?thesis
    by (simp add: terminated_def newline_def)
qed

theorem returned_newline_adds_a_segment:
  "process_chunk_try (ok_reply ''x\<newline>y'') ''a b'' = Inr (PStr ''x\<newline>y'')
   \<and> process_chunk_try (error_reply 500) ''c d'' = Inl (HTTPError 500)
   \<and> process_chunk_try (ok_reply ''z'') ''e f'' = Inr (PStr ''z'')
   \<and> process_all (scripted [ok_reply ''x\<newline>y'', error_reply 500, ok_reply ''z''])
        [''a b'', ''c d'', ''e f'']
      = Inr \<lparr>processed_text = ''x\<newline>y\<newline>c d\<newline>z\<newline>'',
             out_file = ''x\<newline>y\<newline>c d\<newline>z\<newline>''\<rparr>
   \<and> lines_of ''x\<newline>y\<newline>c d\<newline>z\<newline>'' = [''x'', ''y'', ''c d'', ''z'']"
  by (simp add: process_all_def run_init_def loop_body_def process_chunk_def
      process_chunk_try_def try_except_def then_do_def post_def raise_for_status_def
      message_content_def response_json_def completion_def ok_reply_def error_reply_def
      scripted_def slice_to_def newline_def lines_of_def)


text \<open>
  C4.  As stated, the claim fails: on a transport error and on an authentication or
  rate-limit response both functions return normally.  \<open>process_chunk\<close> returns the chunk
  it was given and \<open>generate_podcast\<close> returns \<open>None\<close>; the cause is printed and not passed
  on, and the source has no error type of its own.

  Amended: when \<open>requests.post\<close> raises, or the status code is from 400 to 599 (which
  covers authentication and rate-limit responses), \<open>process_chunk\<close> returns the original
  chunk and \<open>generate_podcast\<close> returns \<open>None\<close>, without raising: the fallback is decided
  inside these functions.  A response with any other status code is read like a success.
\<close>

theorem transform_failure_contained:
  "((\<exists>e. reply = Raises e)
      \<or> (\<exists>r. reply = Responds r \<and> 400 \<le> status_code r \<and> status_code r < 600)
    \<longrightarrow> process_chunk reply text_chunk chunk_num = Inr (PStr text_chunk)
        \<and> generate_podcast reply system_prompt input_prompt = Inr PNone)
   \<and> (\<forall>r. reply = Responds r \<and> \<not> (400 \<le> status_code r \<and> status_code r < 600)
        \<longrightarrow> generate_podcast reply system_prompt input_prompt
              = (case message_content r of Inl e \<Rightarrow> Inr PNone | Inr v \<Rightarrow> Inr v))"
proof (intro conjI allI impI)
  assume f: "(\<exists>e. reply = Raises e)
      \<or> (\<exists>r. reply = Responds r \<and> 400 \<le> status_code r \<and> status_code r < 600)"
  then show "process_chunk reply text_chunk chunk_num = Inr (PStr text_chunk)"
    by (auto simp: process_chunk_def try_except_def process_chunk_try_Raises
        process_chunk_try_status)
  from f show "generate_podcast reply system_prompt input_prompt = Inr PNone"
    by (auto simp: generate_podcast_def try_except_def generate_podcast_try_Raises
        generate_podcast_try_status)
next
  fix r
  assume "reply = Responds r \<and> \<not> (400 \<le> status_code r \<and> status_code r < 600)"
  then show "generate_podcast reply system_prompt input_prompt
              = (case message_content r of Inl e \<Rightarrow> Inr PNone | Inr v \<Rightarrow> Inr v)"
    by (simp add: generate_podcast_def try_except_def generate_podcast_try_content)
qed

theorem transform_failure_contained_witness:
  "process_chunk (error_reply 401) ''raw text'' 0 = Inr (PStr ''raw text'')
   \<and> generate_podcast (error_reply 401) ''system'' ''input'' = Inr PNone
   \<and> generate_podcast (Responds \<lparr>status_code = 302, json_body = Some (completion (PStr ''moved''))\<rparr>)
        ''system'' ''input'' = Inr (PStr ''moved'')"
proof -
  have a: "process_chunk (error_reply 401) ''raw text'' 0 = Inr (PStr ''raw text'')
      \<and> generate_podcast (error_reply 401) ''system'' ''input'' = Inr PNone"
    using transform_failure_contained [of "error_reply 401" "''raw text''" 0 "''system''" "''input''"]
    by (simp add: error_reply_def)
  have b: "generate_podcast (Responds \<lparr>status_code = 302, json_body = Some (completion (PStr ''moved''))\<rparr>)
        ''system'' ''input'' = Inr (PStr ''moved'')"
    using transform_failure_contained
      [of "Responds \<lparr>status_code = 302, json_body = Some (completion (PStr ''moved''))\<rparr>"
          "''raw text''" 0 "''system''" "''input''"]
    by (simp add: message_content_completion)
  from a b show ?thesis by simp
qed

theorem transform_failure_is_not_raised:
  "process_chunk (Raises ConnectionError) ''raw text'' 0 = Inr (PStr ''raw text'')
   \<and> process_chunk (error_reply 401) ''raw text'' 0 = Inr (PStr ''raw text'')
   \<and> generate_podcast (error_reply 429) ''system'' ''input'' = Inr PNone
   \<and> generate_podcast (Raises Timeout) ''system'' ''input'' = Inr PNone"
  by (simp add: process_chunk_def process_chunk_try_def generate_podcast_def
      generate_podcast_try_def try_except_def then_do_def post_def raise_for_status_def
      error_reply_def)

text \<open>
  C5.  As stated, the claim fails: a returned text may itself contain newlines, and then
  the line boundaries of the output are not the chunk boundaries.  With two chunks and the
  results \<open>x\<newline>y\<close> and \<open>z\<close> the output has the three lines \<open>x\<close>, \<open>y\<close>, \<open>z\<close>.

  Amended: when every chunk's result is a text, the output (and the file) is the results in
  order, each followed by exactly one newline, the last one too; if moreover no result
  contains a newline, the lines of the output are exactly the results.
\<close>

theorem output_is_terminated_results:
  assumes "length results = length chunk_list"
    and "\<forall>i < length chunk_list.
           process_chunk (remote i) (chunk_list ! i) i = Inr (PStr (results ! i))"
  shows "process_all remote chunk_list
           = Inr \<lparr>processed_text = terminated results, out_file = terminated results\<rparr>
    \<and> ((\<forall>r \<in> set results. CHR 0x0A \<notin> set r) \<longrightarrow> lines_of (terminated results) = results)"
  using process_all_texts [OF assms] lines_of_terminated [of results]
  by simp

theorem output_is_terminated_results_witness:
  "process_all (scripted [ok_reply ''x'', ok_reply ''z'']) [''a'', ''b'']
     = Inr \<lparr>processed_text = ''x\<newline>z\<newline>'', out_file = ''x\<newline>z\<newline>''\<rparr>
   \<and> lines_of ''x\<newline>z\<newline>'' = [''x'', ''z'']"
proof -
  let ?remote = "scripted [ok_reply ''x'', ok_reply ''z'']"
  have ok: "process_chunk (ok_reply t) c n = Inr (PStr t)" for t c n
    by (simp add: ok_reply_def process_chunk_def try_except_def process_chunk_try_content
        message_content_completion then_do_def)
  have len: "length [''x'', ''z''] = length [''a'', ''b'']"
    by simp
  have each: "\<forall>i < length [''a'', ''b''].
      process_chunk (?remote i) ([''a'', ''b''] ! i) i = Inr (PStr ([''x'', ''z''] ! i))"
    by (auto simp: scripted_def ok less_Suc_eq numeral_2_eq_2)
  from output_is_terminated_results [OF len each] show ?thesis
    by (simp add: terminated_def newline_def)
qed

theorem result_newline_is_a_line_boundary:
  "process_all (scripted [ok_reply ''x\<newline>y'', ok_reply ''z'']) [''a'', ''b'']
     = Inr \<lparr>processed_text = ''x\<newline>y\<newline>z\<newline>'', out_file = ''x\<newline>y\<newline>z\<newline>''\<rparr>
   \<and> process_chunk (ok_reply ''x\<newline>y'') ''a'' 0 = Inr (PStr ''x\<newline>y'')
   \<and> process_chunk (ok_reply ''z'') ''b'' 1 = Inr (PStr ''z'')
   \<and> lines_of ''x\<newline>y\<newline>z\<newline>'' = [''x'', ''y'', ''z'']"
  by (simp add: process_all_def run_init_def loop_body_def process_chunk_def
      process_chunk_try_def try_except_def then_do_def post_def raise_for_status_def
      message_content_def response_json_def completion_def ok_reply_def scripted_def
      slice_to_def newline_def lines_of_def)

text \<open>
  C10.  \<open>process_chunk\<close> returns for every answer of the service and never raises.  It
  returns the text of the model's message when the call succeeds, and the chunk it was
  given, unchanged, when \<open>requests.post\<close> raises, when the status code is from 400 to 599,
  when the content cannot be read from the body, or when anything else in the \<open>try\<close>
  raises.
\<close>

theorem process_chunk_total:
  "(\<exists>v. process_chunk reply text_chunk chunk_num = Inr v)
   \<and> (\<forall>r t. reply = Responds r \<and> \<not> (400 \<le> status_code r \<and> status_code r < 600)
             \<and> message_content r = Inr (PStr t)
          \<longrightarrow> process_chunk reply text_chunk chunk_num = Inr (PStr t))
   \<and> ((\<exists>e. reply = Raises e)
        \<or> (\<exists>r. reply = Responds r \<and> 400 \<le> status_code r \<and> status_code r < 600)
        \<or> (\<exists>r e. reply = Responds r \<and> message_content r = Inl e)
        \<or> (\<exists>e. process_chunk_try reply text_chunk = Inl e)
       \<longrightarrow> process_chunk reply text_chunk chunk_num = Inr (PStr text_chunk))"
proof (intro conjI allI impI)
  show "\<exists>v. process_chunk reply text_chunk chunk_num = Inr v"
    by (rule process_chunk_returns)
next
  fix r t
  assume "reply = Responds r \<and> \<not> (400 \<le> status_code r \<and> status_code r < 600)
      \<and> message_content r = Inr (PStr t)"
  then show "process_chunk reply text_chunk chunk_num = Inr (PStr t)"
    by (simp add: process_chunk_def try_except_def process_chunk_try_content then_do_def)
next
  assume "(\<exists>e. reply = Raises e)
        \<or> (\<exists>r. reply = Responds r \<and> 400 \<le> status_code r \<and> status_code r < 600)
        \<or> (\<exists>r e. reply = Responds r \<and> message_content r = Inl e)
        \<or> (\<exists>e. process_chunk_try reply text_chunk = Inl e)"
  then have "\<exists>e. process_chunk_try reply text_chunk = Inl e"
  proof (elim disjE exE conjE)
    fix e assume "reply = Raises e"
    then show ?thesis by (simp add: process_chunk_try_Raises)
  next
    fix r assume "reply = Responds r" "400 \<le> status_code r" "status_code r < 600"
    then show ?thesis by (simp add: process_chunk_try_status)
  next
    fix r e assume r: "reply = Responds r" "message_content r = Inl e"
    show ?thesis
    proof (cases "400 \<le> status_code r \<and> status_code r < 600")
      case True
      with r show ?thesis by (simp add: process_chunk_try_status)
    next
      case False
      with r show ?thesis by (simp add: process_chunk_try_content then_do_def)
    qed
  next
    fix e assume "process_chunk_try reply text_chunk = Inl e"
    then show ?thesis by blast
  qed
  then show "process_chunk reply text_chunk chunk_num = Inr (PStr text_chunk)"
    by (auto simp: process_chunk_def try_except_def)
qed

theorem process_chunk_total_witness:
  "process_chunk (ok_reply ''clean text'') ''raw text'' 0 = Inr (PStr ''clean text'')
   \<and> process_chunk (Raises Timeout) ''raw text'' 1 = Inr (PStr ''raw text'')
   \<and> process_chunk (error_reply 429) ''raw text'' 2 = Inr (PStr ''raw text'')"
proof (intro conjI)
  have "message_content \<lparr>status_code = 200, json_body = Some (completion (PStr ''clean text''))\<rparr>
      = Inr (PStr ''clean text'')"
    by (rule message_content_completion)
  with process_chunk_total [of "ok_reply ''clean text''" "''raw text''" 0]
  show "process_chunk (ok_reply ''clean text'') ''raw text'' 0 = Inr (PStr ''clean text'')"
    by (simp add: ok_reply_def)
next
  from process_chunk_total [of "Raises Timeout" "''raw text''" 1]
  show "process_chunk (Raises Timeout) ''raw text'' 1 = Inr (PStr ''raw text'')"
    by simp
next
  from process_chunk_total [of "error_reply 429" "''raw text''" 2]
  show "process_chunk (error_reply 429) ''raw text'' 2 = Inr (PStr ''raw text'')"
    by (simp add: error_reply_def)
qed

section \<open>Claims on the dialogue\<close>

text \<open>
  C7.  As stated, the claim fails: the source checks nothing.  When the model answers
  \<open>[("Narrator", "")]\<close>, \<open>generate_podcast\<close> returns this text and the next cell saves it; the
  turn it denotes has an unknown speaker label and an empty utterance.

  Amended: when the call succeeds, \<open>generate_podcast\<close> returns the content of the model's
  message exactly as received, and a non-empty text is saved to the file unchanged.  The
  speaker labels and the utterances are whatever the model wrote; the format is asked for
  in the system prompt only.
\<close>

theorem generate_podcast_returns_content:
  assumes "\<not> (400 \<le> status_code r \<and> status_code r < 600)"
    and "message_content r = Inr (PStr s)"
    and "s \<noteq> []"
  shows "generate_podcast (Responds r) system_prompt input_prompt = Inr (PStr s)
    \<and> save_podcast (PStr s) = Inr (Some s)"
  using assms
  by (simp add: generate_podcast_def try_except_def generate_podcast_try_content
      save_podcast_def)

theorem generate_podcast_returns_content_witness:
  \<open>generate_podcast (ok_reply ''[("Speaker 1", "Hi there"), ("Speaker 2", "Oh!")]'')
       ''system'' ''input''
     = Inr (PStr ''[("Speaker 1", "Hi there"), ("Speaker 2", "Oh!")]'')
   \<and> save_podcast (PStr ''[("Speaker 1", "Hi there"), ("Speaker 2", "Oh!")]'')
     = Inr (Some ''[("Speaker 1", "Hi there"), ("Speaker 2", "Oh!")]'')\<close>
proof -
  let ?s = \<open>''[("Speaker 1", "Hi there"), ("Speaker 2", "Oh!")]''\<close>
  let ?r = "\<lparr>status_code = 200, json_body = Some (completion (PStr ?s))\<rparr>"
  have st: "\<not> (400 \<le> status_code ?r \<and> status_code ?r < 600)"
    by simp
  have mc: "message_content ?r = Inr (PStr ?s)"
    by (rule message_content_completion)
  have ne: "?s \<noteq> []"
    by simp
  from generate_podcast_returns_content [OF st mc ne, of "''system''" "''input''"]
  show ?thesis
    by (simp add: ok_reply_def)
qed

theorem unvalidated_turn_is_returned:
  \<open>generate_podcast (ok_reply ''[("Narrator", "")]'') ''system'' ''input''
     = Inr (PStr ''[("Narrator", "")]'')
   \<and> save_podcast (PStr ''[("Narrator", "")]'') = Inr (Some ''[("Narrator", "")]'')
   \<and> turns_of ''[("Narrator", "")]''
     = Some [\<lparr>speaker = ''Narrator'', utterance = [], sequence = 0\<rparr>]
   \<and> \<not> canonical_speaker ''Narrator''
   \<and> \<not> valid_turns [\<lparr>speaker = ''Narrator'', utterance = [], sequence = 0\<rparr>]\<close>
  by (simp add: generate_podcast_def generate_podcast_try_def try_except_def then_do_def
      post_def raise_for_status_def message_content_def response_json_def completion_def
      ok_reply_def save_podcast_def turns_of_def is_space_def canonical_speaker_def
      valid_turns_def lower_def lower_char_def)

section \<open>Claims on the extraction\<close>

text \<open>
  C8.  As stated, the claim fails: for a missing path, for a path that does not end in
  \<open>.pdf\<close> and for a document the converter cannot read, \<open>extract_text_from_pdf\<close> returns
  \<open>None\<close>; it raises nothing, and the source has no extraction error type.

  Amended: when the path does not exist, or does not end in \<open>.pdf\<close> (in any letter case),
  or the conversion raises, \<open>extract_text_from_pdf\<close> returns \<open>None\<close> and does not raise.
\<close>

theorem extraction_failure_returns_None:
  assumes "\<not> exists file_path \<or> \<not> endswith (lower file_path) ''.pdf''
           \<or> (\<exists>e. to_markdown file_path = Inl e)"
  shows "extract_text_from_pdf exists to_markdown file_path max_chars = Inr None"
  using assms
  by (auto simp: extract_text_from_pdf_def validate_pdf_iff try_except_def then_do_def)

theorem extraction_failure_returns_None_witness:
  "extract_text_from_pdf (only_file ''paper.pdf'') unreadable ''notes.pdf'' 60000 = Inr None
   \<and> extract_text_from_pdf (only_file ''notes.txt'') (converts_to ''text'') ''notes.txt'' 60000
       = Inr None
   \<and> extract_text_from_pdf (only_file ''paper.pdf'') unreadable ''paper.pdf'' 60000 = Inr None"
proof (intro conjI)
  show "extract_text_from_pdf (only_file ''paper.pdf'') unreadable ''notes.pdf'' 60000 = Inr None"
    using extraction_failure_returns_None
      [where exists = "only_file ''paper.pdf''" and file_path = "''notes.pdf''"
         and to_markdown = unreadable and max_chars = 60000]
    by (simp add: only_file_def)
next
  show "extract_text_from_pdf (only_file ''notes.txt'') (converts_to ''text'') ''notes.txt'' 60000
      = Inr None"
    using extraction_failure_returns_None
      [where exists = "only_file ''notes.txt''" and file_path = "''notes.txt''"
         and to_markdown = "converts_to ''text''" and max_chars = 60000]
    by (simp add: endswith_def lower_def lower_char_def)
next
  show "extract_text_from_pdf (only_file ''paper.pdf'') unreadable ''paper.pdf'' 60000 = Inr None"
    using extraction_failure_returns_None
      [where exists = "only_file ''paper.pdf''" and file_path = "''paper.pdf''"
         and to_markdown = unreadable and max_chars = 60000]
    by (simp add: unreadable_def)
qed

theorem extraction_failure_is_not_raised:
  "extract_text_from_pdf (only_file ''paper.pdf'') (converts_to ''text'') ''missing.pdf'' 60000
     = Inr None
   \<and> extract_text_from_pdf (only_file ''notes.txt'') (converts_to ''text'') ''notes.txt'' 60000
     = Inr None
   \<and> extract_text_from_pdf (only_file ''broken.PDF'') unreadable ''broken.PDF'' 60000
     = Inr None"
  by (simp add: extract_text_from_pdf_def validate_pdf_def endswith_def lower_def lower_char_def
      try_except_def then_do_def only_file_def converts_to_def unreadable_def)

text \<open>
  C9.  As stated, the claim fails for a negative \<open>max_chars\<close>: the slice \<open>[:max_chars]\<close>
  then drops characters from the end, and with the text \<open>abc\<close> and \<open>max_chars = -1\<close> the
  function returns \<open>ab\<close>, which is longer than \<open>-1\<close>.

  Amended: for every \<open>max_chars\<close> from 0 on, a returned text is at most \<open>max_chars\<close>
  characters long; it is the first \<open>max_chars\<close> characters of the converted text (the whole
  of it when it is not longer).  With the default, a returned text is at most 60000
  characters long.
\<close>

theorem extracted_text_bounded:
  "(0 \<le> max_chars
      \<and> extract_text_from_pdf exists to_markdown file_path max_chars = Inr (Some t)
    \<longrightarrow> int (length t) \<le> max_chars
        \<and> (\<exists>markdown_text. to_markdown file_path = Inr markdown_text
              \<and> t = take (nat max_chars) markdown_text))
   \<and> (extract_text_from_pdf_default exists to_markdown file_path = Inr (Some t)
    \<longrightarrow> length t \<le> 60000)"
proof -
  have bound: "int (length t) \<le> m
      \<and> (\<exists>markdown_text. to_markdown file_path = Inr markdown_text
            \<and> t = take (nat m) markdown_text)"
    if m: "0 \<le> m" and r: "extract_text_from_pdf exists to_markdown file_path m = Inr (Some t)"
    for m
  proof -
    from r obtain markdown_text where
      md: "to_markdown file_path = Inr markdown_text"
      and t: "t = (if int (length markdown_text) > m
                   then slice_to m markdown_text else markdown_text)"
      by (auto simp: extract_text_from_pdf_def try_except_def then_do_def
          split: if_splits sum.splits)
    from t m have "t = take (nat m) markdown_text"
      by (auto simp: slice_to_def)
    with md m show ?thesis
      by auto
  qed
  have "length t \<le> 60000"
    if "extract_text_from_pdf_default exists to_markdown file_path = Inr (Some t)"
    using bound [of 60000] that by (simp add: extract_text_from_pdf_default_def)
  with bound [of max_chars] show ?thesis
    by blast
qed

theorem extracted_text_bounded_witness:
  "(0::int) \<le> 3
   \<and> extract_text_from_pdf (only_file ''paper.pdf'') (converts_to ''abcdef'') ''paper.pdf'' 3
     = Inr (Some ''abc'')
   \<and> int (length ''abc'') \<le> 3
   \<and> extract_text_from_pdf_default (only_file ''paper.pdf'') (converts_to ''abcdef'') ''paper.pdf''
     = Inr (Some ''abcdef'')
   \<and> length ''abcdef'' \<le> 60000"
proof -
  have r: "extract_text_from_pdf (only_file ''paper.pdf'') (converts_to ''abcdef'') ''paper.pdf'' 3
      = Inr (Some ''abc'')"
    by (simp add: extract_text_from_pdf_def validate_pdf_def endswith_def lower_def lower_char_def
        try_except_def then_do_def slice_to_def only_file_def converts_to_def)
  have d: "extract_text_from_pdf_default (only_file ''paper.pdf'') (converts_to ''abcdef'')
      ''paper.pdf'' = Inr (Some ''abcdef'')"
    by (simp add: extract_text_from_pdf_default_def extract_text_from_pdf_def validate_pdf_def
        endswith_def lower_def lower_char_def try_except_def then_do_def only_file_def
        converts_to_def)
  from r d
    extracted_text_bounded [of 3 "only_file ''paper.pdf''" "converts_to ''abcdef''"
      "''paper.pdf''" "''abc''"]
    extracted_text_bounded [of 3 "only_file ''paper.pdf''" "converts_to ''abcdef''"
      "''paper.pdf''" "''abcdef''"]
  show ?thesis
    by simp
qed

theorem negative_max_chars_is_no_bound:
  "extract_text_from_pdf (only_file ''paper.pdf'') (converts_to ''abc'') ''paper.pdf'' (- 1)
     = Inr (Some ''ab'')
   \<and> \<not> int (length ''ab'') \<le> - 1"
  by (simp add: extract_text_from_pdf_def validate_pdf_def endswith_def lower_def lower_char_def
      try_except_def then_do_def slice_to_def only_file_def converts_to_def)

end
